theory Spec2Isabelle
  imports Main "HOL-Library.Multiset"
begin

section \<open>Word-count API: data model\<close>

text \<open>
  The development follows \<^verbatim>\<open>main.go\<close> (and the identical \<^verbatim>\<open>ProcessText\<close> of
  \<^verbatim>\<open>wordcounter/counter.go\<close>).

  A Go string is modelled as the sequence of code points (runes) that the Go runtime
  decodes from it; this is the view both \<^verbatim>\<open>strings.ToLower\<close> and the \<^verbatim>\<open>regexp\<close>
  package take of their argument. Identifiers, media types and messages, which the
  program only compares and concatenates, are plain strings.
\<close>

type_synonym rune = nat
type_synonym gostring = "rune list"
type_synonym error = string

definition runes :: "string \<Rightarrow> gostring" where
  "runes s = map of_char s"

text \<open>
  \<^verbatim>\<open>type WordFrequency struct { Word string; Frequency int }\<close>. The counter of a word
  is bounded by the number of words of the text, so the 64-bit \<^verbatim>\<open>int\<close> never wraps; it is
  modelled as a natural number.
\<close>

record WordFrequency =
  Word :: gostring
  Frequency :: nat

record Analysis =
  ID :: string
  Frequencies :: "WordFrequency list"

text \<open>\<^verbatim>\<open>Store.analyses\<close>, a \<^verbatim>\<open>map[string]Analysis\<close>; \<^verbatim>\<open>NewStore\<close> makes it empty.\<close>

type_synonym Store = "string \<rightharpoonup> Analysis"

definition NewStore :: Store where
  "NewStore = Map.empty"

text \<open>
  The result of \<^verbatim>\<open>pdf.NewReader\<close>: the page count and, for every page number, what
  \<^verbatim>\<open>reader.Page(i).GetPlainText()\<close> returns.
\<close>

record PdfReader =
  NumPage :: int
  GetPlainText :: "int \<Rightarrow> error + gostring"

text \<open>
  What the program takes from its libraries and cannot be read off its own source:
  the Unicode tables beyond ASCII (the letter category \<^verbatim>\<open>\p{L}\<close> and
  \<^verbatim>\<open>unicode.ToLower\<close>), the algorithm behind \<^verbatim>\<open>sort.Slice\<close>, and the PDF decoder.
\<close>

record Lib =
  catL :: "rune \<Rightarrow> bool"
  toLower :: "rune \<Rightarrow> rune"
  sortSlice :: "(WordFrequency \<Rightarrow> WordFrequency \<Rightarrow> bool) \<Rightarrow> WordFrequency list \<Rightarrow> WordFrequency list"
  pdfNewReader :: "gostring \<Rightarrow> error + PdfReader"


section \<open>Tokenizer: \<^verbatim>\<open>strings.ToLower\<close> and \<^verbatim>\<open>wordRegex.FindAllString\<close>\<close>

definition isASCIILetter :: "rune \<Rightarrow> bool" where
  "isASCIILetter c = ((65 \<le> c \<and> c \<le> 90) \<or> (97 \<le> c \<and> c \<le> 122))"

text \<open>The class \<^verbatim>\<open>[\p{L}]\<close>: on ASCII the letters A-Z and a-z, beyond ASCII the table.\<close>

definition isLetter :: "Lib \<Rightarrow> rune \<Rightarrow> bool" where
  "isLetter lib c = (if c < 128 then isASCIILetter c else catL lib c)"

text \<open>
  \<^verbatim>\<open>regexp/syntax.IsWordChar\<close>, which decides \<^verbatim>\<open>\b\<close>: the ASCII characters
  \<^verbatim>\<open>[0-9A-Za-z_]\<close> and nothing else.
\<close>

definition IsWordChar :: "rune \<Rightarrow> bool" where
  "IsWordChar c = (isASCIILetter c \<or> (48 \<le> c \<and> c \<le> 57) \<or> c = 95)"

text \<open>
  \<^verbatim>\<open>\b\<close> between the rune before a position and the rune after it (\<open>None\<close> at either
  end of the text): exactly one of the two is a word character.
\<close>

definition isWordOpt :: "rune option \<Rightarrow> bool" where
  "isWordOpt r = (case r of None \<Rightarrow> False | Some c \<Rightarrow> IsWordChar c)"

definition wordBoundary :: "rune option \<Rightarrow> rune option \<Rightarrow> bool" where
  "wordBoundary before after = (isWordOpt before \<noteq> isWordOpt after)"

text \<open>\<^verbatim>\<open>unicode.ToLower\<close> and \<^verbatim>\<open>strings.ToLower\<close>, which maps it over the runes.\<close>

definition ToLowerRune :: "Lib \<Rightarrow> rune \<Rightarrow> rune" where
  "ToLowerRune lib c =
     (if c < 128 then (if 65 \<le> c \<and> c \<le> 90 then c + 32 else c) else toLower lib c)"

definition ToLower :: "Lib \<Rightarrow> gostring \<Rightarrow> gostring" where
  "ToLower lib t = map (ToLowerRune lib) t"

text \<open>
  The greedy \<^verbatim>\<open>[\p{L}]+\b\<close> after a first letter \<open>c\<close> has been consumed, with the
  leftmost-first preference of Go's \<^verbatim>\<open>regexp\<close>: take one more letter if the rest of the
  pattern then matches, otherwise stop here if \<^verbatim>\<open>\b\<close> holds. The result is the number of
  further runes consumed.
\<close>

fun lettersThenBoundary :: "Lib \<Rightarrow> rune \<Rightarrow> gostring \<Rightarrow> nat option" where
  "lettersThenBoundary lib c [] = (if wordBoundary (Some c) None then Some 0 else None)"
| "lettersThenBoundary lib c (x # xs) =
     (case (if isLetter lib x then lettersThenBoundary lib x xs else None) of
        Some k \<Rightarrow> Some (Suc k)
      | None \<Rightarrow> if wordBoundary (Some c) (Some x) then Some 0 else None)"

text \<open>
  \<^verbatim>\<open>wordRegex.FindAllString(text, -1)\<close> for \<^verbatim>\<open>\b[\p{L}]+\b\<close>: the successive leftmost
  matches, each search resuming where the previous match ended. \<open>before\<close> is the rune in
  front of the current position.
\<close>

function FindAllString :: "Lib \<Rightarrow> rune option \<Rightarrow> gostring \<Rightarrow> gostring list" where
  "FindAllString lib before [] = []"
| "FindAllString lib before (x # xs) =
     (if wordBoundary before (Some x) \<and> isLetter lib x then
        (case lettersThenBoundary lib x xs of
           Some k \<Rightarrow> (x # take k xs) # FindAllString lib (Some (last (x # take k xs))) (drop k xs)
         | None \<Rightarrow> FindAllString lib (Some x) xs)
      else FindAllString lib (Some x) xs)"
  by pat_completeness auto
termination
  by (relation "measure (\<lambda>(lib, before, t). length t)") auto

text \<open>Lines 166-170 of \<^verbatim>\<open>processText\<close>: the variable \<^verbatim>\<open>words\<close>.\<close>

definition words :: "Lib \<Rightarrow> gostring \<Rightarrow> gostring list" where
  "words lib t = FindAllString lib None (ToLower lib t)"


section \<open>Frequency aggregation: lines 172-191 of \<^verbatim>\<open>processText\<close>\<close>

text \<open>\<^verbatim>\<open>frequencies[word]++\<close>: a missing key reads as zero.\<close>

definition increment :: "(gostring \<rightharpoonup> nat) \<Rightarrow> gostring \<Rightarrow> (gostring \<rightharpoonup> nat)" where
  "increment m w = m(w \<mapsto> (case m w of None \<Rightarrow> 0 | Some n \<Rightarrow> n) + 1)"

definition countWords :: "gostring list \<Rightarrow> (gostring \<rightharpoonup> nat)" where
  "countWords ws = foldl increment Map.empty ws"

text \<open>
  \<^verbatim>\<open>for word, freq := range frequencies\<close> visits every key once, in an order the Go
  runtime chooses anew for each loop. The order of a run is the argument \<open>ks\<close> of the
  model; \<open>rangeOrder\<close> says that it is an order the runtime can choose.
\<close>

definition rangeOrder :: "(gostring \<rightharpoonup> nat) \<Rightarrow> gostring list \<Rightarrow> bool" where
  "rangeOrder m ks = (distinct ks \<and> set ks = dom m)"

definition toSlice :: "(gostring \<rightharpoonup> nat) \<Rightarrow> gostring list \<Rightarrow> WordFrequency list" where
  "toSlice m ks =
     map (\<lambda>w. \<lparr>Word = w, Frequency = (case m w of None \<Rightarrow> 0 | Some n \<Rightarrow> n)\<rparr>) ks"

text \<open>The comparison handed to \<^verbatim>\<open>sort.Slice\<close>: by frequency only, larger first.\<close>

definition byFrequency :: "WordFrequency \<Rightarrow> WordFrequency \<Rightarrow> bool" where
  "byFrequency a b = (Frequency a > Frequency b)"

text \<open>
  What \<^verbatim>\<open>sort.Slice\<close> promises for this comparison: the slice is rearranged, and no
  element stands before one that is less than it. The sort is documented as not stable.
\<close>

definition sortSliceOK :: "Lib \<Rightarrow> bool" where
  "sortSliceOK lib =
     (\<forall>xs. mset (sortSlice lib byFrequency xs) = mset xs
         \<and> sorted_wrt (\<lambda>a b. \<not> byFrequency b a) (sortSlice lib byFrequency xs))"

definition aggregate :: "Lib \<Rightarrow> gostring list \<Rightarrow> gostring list \<Rightarrow> WordFrequency list" where
  "aggregate lib ks ws = sortSlice lib byFrequency (toSlice (countWords ws) ks)"

definition processText :: "Lib \<Rightarrow> gostring list \<Rightarrow> gostring \<Rightarrow> WordFrequency list" where
  "processText lib ks t = aggregate lib ks (words lib t)"


section \<open>\<^verbatim>\<open>extractPDFText\<close>\<close>

text \<open>
  An \<^verbatim>\<open>io.Reader\<close> as what \<^verbatim>\<open>io.ReadAll\<close> makes of it: the bytes read, and the error
  that stopped the reading, if any.
\<close>

record Reader =
  readData :: gostring
  readErr :: "error option"

definition ReadAll :: "Reader \<Rightarrow> gostring \<times> error option" where
  "ReadAll r = (readData r, readErr r)"

text \<open>
  The loop \<^verbatim>\<open>for i := 1; i <= reader.NumPage(); i++\<close> with the builder \<^verbatim>\<open>text\<close> as
  accumulator; a page whose \<^verbatim>\<open>GetPlainText\<close> fails takes the \<^verbatim>\<open>continue\<close>. The page
  count of a file held in memory is far below \<open>2^63\<close>, so \<^verbatim>\<open>i++\<close> does not wrap and the
  counter is an integer.
\<close>

function pageLoop :: "PdfReader \<Rightarrow> int \<Rightarrow> gostring \<Rightarrow> gostring" where
  "pageLoop reader i acc =
     (if i \<le> NumPage reader then
        (case GetPlainText reader i of
           Inl err \<Rightarrow> pageLoop reader (i + 1) acc
         | Inr pageText \<Rightarrow> pageLoop reader (i + 1) (acc @ pageText))
      else acc)"
  by pat_completeness auto
termination
  by (relation "measure (\<lambda>(reader, i, acc). nat (NumPage reader + 1 - i))") auto

declare pageLoop.simps [simp del]

definition extractPDFText :: "Lib \<Rightarrow> Reader \<Rightarrow> error + gostring" where
  "extractPDFText lib file =
     (case ReadAll file of
        (content, Some err) \<Rightarrow> Inl (''error reading PDF file: '' @ err)
      | (content, None) \<Rightarrow>
          (case pdfNewReader lib content of
             Inl err \<Rightarrow> Inl (''error creating PDF reader: '' @ err)
           | Inr reader \<Rightarrow> Inr (pageLoop reader 1 [])))"


section \<open>The handlers and the store\<close>

text \<open>
  A request to \<^verbatim>\<open>POST /api/upload\<close>: whether \<^verbatim>\<open>ParseMultipartForm\<close> fails, and what
  \<^verbatim>\<open>FormFile("file")\<close> finds, the file and the \<^verbatim>\<open>Content-Type\<close> of its part.
\<close>

record Upload =
  "file" :: Reader
  contentType :: string

record Request =
  parseFails :: bool
  formFile :: "Upload option"

text \<open>A response: \<^verbatim>\<open>http.Error(w, message, status)\<close> or the encoded JSON value.\<close>

datatype Response =
  Error string nat
| JSONId string
| JSONAnalysis Analysis

definition isValidContentType :: "string \<Rightarrow> bool" where
  "isValidContentType ct = (ct = ''text/plain'' \<or> ct = ''application/pdf'')"

text \<open>
  Lines 82-91 of \<^verbatim>\<open>handleUpload\<close>: the pair of \<^verbatim>\<open>text\<close> and the outer \<^verbatim>\<open>err\<close> after
  the branch. The outer \<^verbatim>\<open>err\<close> is \<^verbatim>\<open>nil\<close> on entry (line 69 has returned otherwise). The
  PDF branch assigns both. The other branch declares, with \<^verbatim>\<open>:=\<close>, a new \<^verbatim>\<open>err\<close> of its
  own block, tests that one, and leaves the outer \<^verbatim>\<open>err\<close> as it was.
\<close>

definition readContent :: "Lib \<Rightarrow> Upload \<Rightarrow> gostring \<times> error option" where
  "readContent lib u =
     (if contentType u = ''application/pdf'' then
        (case extractPDFText lib (file u) of
           Inl err \<Rightarrow> ([], Some err)
         | Inr t \<Rightarrow> (t, None))
      else
        (case ReadAll (file u) of
           (content, None) \<Rightarrow> (content, None)
         | (content, Some err') \<Rightarrow> ([], None)))"

text \<open>Lines 101-110: the analysis is stored under the identifier it carries.\<close>

definition create :: "string \<Rightarrow> WordFrequency list \<Rightarrow> Store \<Rightarrow> string \<times> Store" where
  "create analysisID frequencies st =
     (analysisID, st(analysisID \<mapsto> \<lparr>ID = analysisID, Frequencies = frequencies\<rparr>))"

text \<open>Lines 122-124: \<^verbatim>\<open>analysis, exists := store.analyses[id]\<close>.\<close>

definition get :: "string \<Rightarrow> Store \<Rightarrow> Analysis option" where
  "get ident st = st ident"

text \<open>
  \<^verbatim>\<open>handleUpload\<close>. \<open>uuid\<close> is what \<^verbatim>\<open>uuid.New().String()\<close> returns in this call and
  \<open>ks\<close> the order in which the \<^verbatim>\<open>range\<close> loop of \<^verbatim>\<open>processText\<close> runs.
\<close>

definition handleUpload ::
  "Lib \<Rightarrow> gostring list \<Rightarrow> string \<Rightarrow> Request \<Rightarrow> Store \<Rightarrow> Response \<times> Store" where
  "handleUpload lib ks uuid r st =
     (if parseFails r then (Error ''File too large'' 400, st)
      else case formFile r of
        None \<Rightarrow> (Error ''Error retrieving file'' 400, st)
      | Some u \<Rightarrow>
          if \<not> isValidContentType (contentType u) then
            (Error ''Invalid file type. Only text/plain and application/pdf are supported'' 400, st)
          else case readContent lib u of
            (t, Some err) \<Rightarrow> (Error ''Error reading file content'' 500, st)
          | (t, None) \<Rightarrow>
              (case create uuid (processText lib ks t) st of
                 (analysisID, st') \<Rightarrow> (JSONId analysisID, st')))"

definition handleGetAnalysis :: "string \<Rightarrow> Store \<Rightarrow> Response" where
  "handleGetAnalysis ident st =
     (case get ident st of
        None \<Rightarrow> Error ''Analysis not found'' 404
      | Some analysis \<Rightarrow> JSONAnalysis analysis)"

text \<open>The stores the process can hold: the one of \<^verbatim>\<open>NewStore\<close>, changed by uploads only.\<close>

inductive reachable :: "Lib \<Rightarrow> Store \<Rightarrow> bool" for lib :: Lib where
  start: "reachable lib NewStore"
| upload: "reachable lib st \<Longrightarrow> reachable lib (snd (handleUpload lib ks uuid r st))"


section \<open>A concrete library\<close>

text \<open>
  For evaluating the program on concrete inputs: the Unicode tables on the Latin-1
  supplement (no letters assumed beyond U+00FF), the insertion sort that \<^verbatim>\<open>sort.Slice\<close>
  runs on slices of up to twelve elements, and a decoder that rejects the empty file and
  otherwise reports three pages, the second of which cannot be extracted.
\<close>

definition latin1L :: "rune \<Rightarrow> bool" where
  "latin1L c = (c = 170 \<or> c = 181 \<or> c = 186 \<or> (192 \<le> c \<and> c \<le> 214)
     \<or> (216 \<le> c \<and> c \<le> 246) \<or> (248 \<le> c \<and> c \<le> 255))"

definition latin1Lower :: "rune \<Rightarrow> rune" where
  "latin1Lower c = (if (192 \<le> c \<and> c \<le> 214) \<or> (216 \<le> c \<and> c \<le> 222) then c + 32 else c)"

text \<open>
  \<^verbatim>\<open>insertionSortLessFunc\<close>: each element moves left while it is less than its left
  neighbour. The sorted prefix is kept reversed, nearest neighbour first.
\<close>

fun sinkLeft :: "('a \<Rightarrow> 'a \<Rightarrow> bool) \<Rightarrow> 'a \<Rightarrow> 'a list \<Rightarrow> 'a list" where
  "sinkLeft lt x [] = [x]"
| "sinkLeft lt x (p # ps) = (if lt x p then p # sinkLeft lt x ps else x # p # ps)"

definition insertionSort :: "('a \<Rightarrow> 'a \<Rightarrow> bool) \<Rightarrow> 'a list \<Rightarrow> 'a list" where
  "insertionSort lt xs = rev (foldl (\<lambda>prefix x. sinkLeft lt x prefix) [] xs)"

definition threePages :: "gostring \<Rightarrow> error + PdfReader" where
  "threePages content =
     (if content = [] then Inl ''not a PDF file''
      else Inr \<lparr>NumPage = 3,
                GetPlainText = (\<lambda>i. if i = 2 then Inl ''malformed page'' else Inr content)\<rparr>)"

definition sampleLib :: Lib where
  "sampleLib = \<lparr>catL = latin1L, toLower = latin1Lower, sortSlice = insertionSort,
                 pdfNewReader = threePages\<rparr>"


section \<open>Maximal runs\<close>

text \<open>
  The maximal runs of elements that satisfy \<open>P\<close>, from left to right. With the letter
  class for \<open>P\<close> these are the tokens as the specification describes them.
\<close>

function maximalRuns :: "('a \<Rightarrow> bool) \<Rightarrow> 'a list \<Rightarrow> 'a list list" where
  "maximalRuns P [] = []"
| "maximalRuns P (x # xs) =
     (if P x then (x # takeWhile P xs) # maximalRuns P (dropWhile P xs)
      else maximalRuns P xs)"
  by pat_completeness auto
termination
  by (relation "measure (\<lambda>(P, xs). length xs)") (auto simp: length_dropWhile_le less_Suc_eq_le)


text \<open>A well-formed upload request with the given media type and file.\<close>

definition uploadOf :: "string \<Rightarrow> gostring \<Rightarrow> error option \<Rightarrow> Request" where
  "uploadOf ct content err =
     \<lparr>parseFails = False,
      formFile = Some \<lparr>file = \<lparr>readData = content, readErr = err\<rparr>, contentType = ct\<rparr>\<rparr>"


text \<open>The scenario of the specification, with one order of the six keys.\<close>

definition catText :: gostring where
  "catText = runes ''The cat sat on the mat. THE CAT ran.''"

definition catKeys :: "gostring list" where
  "catKeys = map runes [''ran'', ''the'', ''mat'', ''cat'', ''on'', ''sat'']"


section \<open>The tokenizer\<close>

lemma letter_word: "isLetter lib c \<Longrightarrow> c < 128 \<Longrightarrow> IsWordChar c"
  by (simp add: isLetter_def IsWordChar_def)

lemma boundary_Some: "wordBoundary (Some a) (Some b) = (IsWordChar a \<noteq> IsWordChar b)"
  by (simp add: wordBoundary_def isWordOpt_def)

lemma boundary_end: "wordBoundary (Some a) None = IsWordChar a"
  by (simp add: wordBoundary_def isWordOpt_def)

text \<open>
  Where every letter is a word character, the greedy letter match that starts a run of
  word characters succeeds exactly if the whole run consists of letters, and then
  consumes the run.
\<close>

lemma lettersThenBoundary_run:
  assumes "\<forall>c\<in>set (x # xs). isLetter lib c \<longrightarrow> IsWordChar c" and "isLetter lib x"
  shows "lettersThenBoundary lib x xs =
         (if list_all (isLetter lib) (takeWhile IsWordChar xs)
          then Some (length (takeWhile IsWordChar xs)) else None)"
  using assms
proof (induction xs arbitrary: x)
  case Nil
  then show ?case by (simp add: boundary_end)
next
  case (Cons y ys)
  have wx: "IsWordChar x" using Cons.prems by simp
  show ?case
  proof (cases "isLetter lib y")
    case True
    then have wy: "IsWordChar y" using Cons.prems by simp
    have "\<forall>c\<in>set (y # ys). isLetter lib c \<longrightarrow> IsWordChar c" using Cons.prems by simp
    from Cons.IH [OF this True] True wx wy show ?thesis
      by (simp add: boundary_Some)
  next
    case False
    with wx show ?thesis by (simp add: boundary_Some)
  qed
qed

text \<open>
  The search, started behind a word character, first leaves the run it stands in; from
  then on it reports the runs of word characters that are made of letters.
\<close>

lemma FindAllString_runs:
  "\<forall>c\<in>set xs. isLetter lib c \<longrightarrow> IsWordChar c \<Longrightarrow>
   FindAllString lib before xs =
     filter (list_all (isLetter lib))
       (maximalRuns IsWordChar (if isWordOpt before then dropWhile IsWordChar xs else xs))"
proof (induction lib before xs rule: FindAllString.induct)
  case (1 lib before)
  show ?case by simp
next
  case (2 lib before x xs)
  have tl: "\<forall>c\<in>set xs. isLetter lib c \<longrightarrow> IsWordChar c" using "2.prems" by simp
  have lw: "isLetter lib x \<Longrightarrow> IsWordChar x" using "2.prems" by simp
  show ?case
  proof (cases "wordBoundary before (Some x) \<and> isLetter lib x")
    case False
    from "2.IH"(3) [OF False tl] have
      "FindAllString lib (Some x) xs = filter (list_all (isLetter lib))
         (maximalRuns IsWordChar (if IsWordChar x then dropWhile IsWordChar xs else xs))"
      by (simp add: isWordOpt_def)
    with False lw show ?thesis
      by (auto simp: wordBoundary_def isWordOpt_def)
  next
    case True
    then have wx: "IsWordChar x" and nb: "\<not> isWordOpt before" and lx: "isLetter lib x"
      using lw by (auto simp: wordBoundary_def isWordOpt_def)
    note run = lettersThenBoundary_run [OF "2.prems" lx]
    show ?thesis
    proof (cases "list_all (isLetter lib) (takeWhile IsWordChar xs)")
      case all: True
      let ?k = "length (takeWhile IsWordChar xs)"
      have k: "lettersThenBoundary lib x xs = Some ?k" using run all by simp
      have tk: "take ?k xs = takeWhile IsWordChar xs"
        by (metis append_eq_conv_conj takeWhile_dropWhile_id)
      have dk: "drop ?k xs = dropWhile IsWordChar xs"
        by (metis append_eq_conv_conj takeWhile_dropWhile_id)
      have "set (x # takeWhile IsWordChar xs) \<subseteq> Collect IsWordChar"
        using wx by (auto dest: set_takeWhileD)
      then have wl: "IsWordChar (last (x # takeWhile IsWordChar xs))"
        by (metis last_in_set list.distinct(1) mem_Collect_eq subsetD)
      have "\<forall>c\<in>set (drop ?k xs). isLetter lib c \<longrightarrow> IsWordChar c"
        using tl by (auto dest: in_set_dropD)
      from "2.IH"(2) [OF True k this]
      have "FindAllString lib (Some (last (x # take ?k xs))) (drop ?k xs) =
            filter (list_all (isLetter lib)) (maximalRuns IsWordChar (dropWhile IsWordChar xs))"
        using wl by (simp add: tk dk isWordOpt_def)
      with True k nb wx lx all show ?thesis by (simp add: tk dk)
    next
      case notall: False
      have k: "lettersThenBoundary lib x xs = None" using run notall by simp
      from "2.IH"(1) [OF True k tl]
      have "FindAllString lib (Some x) xs =
            filter (list_all (isLetter lib)) (maximalRuns IsWordChar (dropWhile IsWordChar xs))"
        using wx by (simp add: isWordOpt_def)
      with True k nb wx lx notall show ?thesis by simp
    qed
  qed
qed

text \<open>
  C1, as the specification states it: the tokens are the maximal runs of letters of the
  lowercased text. This fails in \<^verbatim>\<open>processText\<close>: the pattern asks for \<^verbatim>\<open>\b\<close> on both
  sides of the letters, and a digit is a word character, so in \<^verbatim>\<open>go2 is fun\<close> the run
  \<^verbatim>\<open>go\<close> is followed by no word boundary and is not reported.
\<close>

theorem words_not_letter_runs:
  "words sampleLib (runes ''go2 is fun'') = [runes ''is'', runes ''fun'']
   \<and> maximalRuns (isLetter sampleLib) (ToLower sampleLib (runes ''go2 is fun''))
       = [runes ''go'', runes ''is'', runes ''fun'']
   \<and> words sampleLib (runes ''go2 is fun'')
       \<noteq> maximalRuns (isLetter sampleLib) (ToLower sampleLib (runes ''go2 is fun''))"
  by code_simp

text \<open>
  C1, amended: for every input text whose lowercased form has no letter beyond ASCII, the
  tokens are, in left-to-right order, exactly those maximal runs of the word characters
  \<^verbatim>\<open>[0-9A-Za-z_]\<close> of the lowercased text that consist of letters only. A run of
  letters that touches a digit or an underscore gives no token; every other character
  separates.
\<close>

theorem words_letter_only_word_runs:
  assumes "\<forall>c\<in>set (ToLower lib t). isLetter lib c \<longrightarrow> c < 128"
  shows "words lib t =
         filter (list_all (isLetter lib)) (maximalRuns IsWordChar (ToLower lib t))"
proof -
  have "\<forall>c\<in>set (ToLower lib t). isLetter lib c \<longrightarrow> IsWordChar c"
    using assms by (auto intro: letter_word)
  from FindAllString_runs [OF this, of None] show ?thesis
    by (simp add: words_def isWordOpt_def)
qed

theorem words_letter_only_word_runs_witness:
  "list_all (\<lambda>c. isLetter sampleLib c \<longrightarrow> c < 128) (ToLower sampleLib (runes ''Go2 is_fun, the CAT''))
   \<and> words sampleLib (runes ''Go2 is_fun, the CAT'') = [runes ''the'', runes ''cat'']"
proof -
  have l: "list_all (\<lambda>c. isLetter sampleLib c \<longrightarrow> c < 128)
             (ToLower sampleLib (runes ''Go2 is_fun, the CAT''))"
    by code_simp
  then have h: "\<forall>c\<in>set (ToLower sampleLib (runes ''Go2 is_fun, the CAT'')). isLetter sampleLib c \<longrightarrow> c < 128"
    by (simp add: list_all_iff)
  have "filter (list_all (isLetter sampleLib))
          (maximalRuns IsWordChar (ToLower sampleLib (runes ''Go2 is_fun, the CAT'')))
        = [runes ''the'', runes ''cat'']"
    by code_simp
  with words_letter_only_word_runs [OF h] l show ?thesis by simp
qed

text \<open>
  Beyond ASCII the word boundary and the letter class disagree: \<^verbatim>\<open>\b\<close> knows ASCII word
  characters only. In the text U+0063 U+0061 U+0066 U+00E9 (\<^verbatim>\<open>cafe\<close> with an acute
  accent) the boundary falls between \<^verbatim>\<open>f\<close> and the accented letter, and the token is
  \<^verbatim>\<open>caf\<close>.
\<close>

lemma words_beyond_ASCII: "words sampleLib [99, 97, 102, 233] = [runes ''caf'']"
  by code_simp


section \<open>The frequency aggregation\<close>

lemma foldl_increment:
  "foldl increment m ws w =
     (if w \<in> set ws \<or> m w \<noteq> None
      then Some ((case m w of None \<Rightarrow> 0 | Some n \<Rightarrow> n) + count_list ws w) else None)"
  by (induction ws arbitrary: m) (auto simp: increment_def split: option.splits)

lemma countWords_eq:
  "countWords ws w = (if w \<in> set ws then Some (count_list ws w) else None)"
  by (simp add: countWords_def foldl_increment)

lemma dom_countWords: "dom (countWords ws) = set ws"
  by (auto simp: countWords_eq dom_def)

lemma toSlice_countWords:
  "toSlice (countWords ws) ks = map (\<lambda>w. \<lparr>Word = w, Frequency = count_list ws w\<rparr>) ks"
  by (simp add: toSlice_def countWords_eq count_list_0_iff)

lemma rangeOrder_countWords: "rangeOrder (countWords ws) ks = (distinct ks \<and> set ks = set ws)"
  by (simp add: rangeOrder_def dom_countWords)

lemma sum_toSlice:
  assumes "rangeOrder (countWords ws) ks"
  shows "sum_list (map Frequency (toSlice (countWords ws) ks)) = length ws"
proof -
  from assms have d: "distinct ks" and s: "set ks = set ws"
    by (simp_all add: rangeOrder_countWords)
  have "sum_list (map Frequency (toSlice (countWords ws) ks)) = sum_list (map (count_list ws) ks)"
    by (simp add: toSlice_countWords comp_def)
  also have "\<dots> = sum (count_list ws) (set ks)"
    using d by (simp add: sum_list_distinct_conv_sum_set)
  also have "\<dots> = length ws"
    using s by (simp add: sum_count_set)
  finally show ?thesis .
qed

lemma Word_toSlice: "map Word (toSlice m ks) = ks"
  by (simp add: toSlice_def comp_def)

lemma aggregate_mset:
  "sortSliceOK lib \<Longrightarrow> mset (aggregate lib ks ws) = mset (toSlice (countWords ws) ks)"
  by (simp add: sortSliceOK_def aggregate_def)

lemma aggregate_sorted:
  "sortSliceOK lib \<Longrightarrow> sorted_wrt (\<lambda>a b. Frequency a \<ge> Frequency b) (aggregate lib ks ws)"
proof -
  assume "sortSliceOK lib"
  then have "sorted_wrt (\<lambda>a b. \<not> byFrequency b a) (aggregate lib ks ws)"
    by (simp add: sortSliceOK_def aggregate_def)
  then show ?thesis by (simp add: byFrequency_def not_less)
qed

lemma aggregate_sum:
  assumes "sortSliceOK lib" "rangeOrder (countWords ws) ks"
  shows "sum_list (map Frequency (aggregate lib ks ws)) = length ws"
proof -
  have "mset (map Frequency (aggregate lib ks ws)) = mset (map Frequency (toSlice (countWords ws) ks))"
    using aggregate_mset [OF assms(1)] by simp
  then have "sum_list (map Frequency (aggregate lib ks ws)) = sum_list (map Frequency (toSlice (countWords ws) ks))"
    by (metis sum_mset_sum_list)
  with sum_toSlice [OF assms(2)] show ?thesis by simp
qed

lemma aggregate_words:
  assumes "sortSliceOK lib"
  shows "mset (map Word (aggregate lib ks ws)) = mset ks"
  using aggregate_mset [OF assms, of ks ws] Word_toSlice [of "countWords ws" ks]
  by (metis mset_map)

lemma aggregate_positive:
  assumes "sortSliceOK lib" "rangeOrder (countWords ws) ks" "e \<in> set (aggregate lib ks ws)"
  shows "0 < Frequency e"
proof -
  have "set (aggregate lib ks ws) = set (toSlice (countWords ws) ks)"
    using aggregate_mset [OF assms(1)] by (metis set_mset_mset)
  with assms(3) obtain w where "w \<in> set ks" "e = \<lparr>Word = w, Frequency = count_list ws w\<rparr>"
    by (auto simp: toSlice_countWords)
  with assms(2) have "w \<in> set ws" "Frequency e = count_list ws w"
    by (simp_all add: rangeOrder_countWords)
  then show ?thesis by (metis count_list_0_iff gr0I)
qed

subsection \<open>The insertion sort keeps the promise of \<^verbatim>\<open>sort.Slice\<close>\<close>

lemma mset_sinkLeft: "mset (sinkLeft lt x ps) = add_mset x (mset ps)"
  by (induction ps) auto

lemma mset_sinkLeft_foldl:
  "mset (foldl (\<lambda>prefix x. sinkLeft lt x prefix) acc xs) = mset acc + mset xs"
  by (induction xs arbitrary: acc) (auto simp: mset_sinkLeft)

lemma set_sinkLeft: "set (sinkLeft lt x ps) = insert x (set ps)"
  by (induction ps) auto

lemma sorted_sinkLeft:
  "sorted_wrt (\<lambda>a b. Frequency a \<le> Frequency b) ps \<Longrightarrow>
   sorted_wrt (\<lambda>a b. Frequency a \<le> Frequency b) (sinkLeft byFrequency x ps)"
  by (induction ps) (auto simp: set_sinkLeft byFrequency_def)

lemma sorted_sinkLeft_foldl:
  "sorted_wrt (\<lambda>a b. Frequency a \<le> Frequency b) acc \<Longrightarrow>
   sorted_wrt (\<lambda>a b. Frequency a \<le> Frequency b)
     (foldl (\<lambda>prefix x. sinkLeft byFrequency x prefix) acc xs)"
  by (induction xs arbitrary: acc) (auto simp: sorted_sinkLeft)

lemma sampleLib_sortSliceOK: "sortSliceOK sampleLib"
  unfolding sortSliceOK_def
proof (intro allI conjI)
  fix xs
  show "mset (sortSlice sampleLib byFrequency xs) = mset xs"
    by (simp add: sampleLib_def insertionSort_def mset_sinkLeft_foldl)
  have "sorted_wrt (\<lambda>a b. Frequency a \<le> Frequency b)
          (foldl (\<lambda>prefix x. sinkLeft byFrequency x prefix) [] xs)"
    by (rule sorted_sinkLeft_foldl) simp
  then show "sorted_wrt (\<lambda>a b. \<not> byFrequency b a) (sortSlice sampleLib byFrequency xs)"
    by (simp add: sampleLib_def insertionSort_def sorted_wrt_rev byFrequency_def not_less)
qed

lemma descending_unique:
  fixes xs ys :: "nat list"
  assumes "sorted_wrt (\<ge>) xs" "sorted_wrt (\<ge>) ys" "mset xs = mset ys"
  shows "xs = ys"
proof -
  have "sorted (rev xs)" "sorted (rev ys)"
    using assms(1,2) by (simp_all add: sorted_wrt_rev)
  moreover have "mset (rev xs) = mset (rev ys)" using assms(3) by simp
  ultimately have "rev xs = rev ys"
    by (metis properties_for_sort)
  then show ?thesis by simp
qed

subsection \<open>Reproducibility\<close>

text \<open>
  C3, as the specification states it: two runs of the aggregation on the same tokens
  give the identical sequence, entries of equal frequency in ascending order of the
  word. \<^verbatim>\<open>processText\<close> compares frequencies only and fills the slice in the order of
  the \<^verbatim>\<open>range\<close> loop over the map. For the tokens \<^verbatim>\<open>a b\<close> both orders of the two keys
  are possible; the two runs return different sequences, and the second one has
  \<^verbatim>\<open>b\<close> in front of \<^verbatim>\<open>a\<close>.
\<close>

theorem aggregate_depends_on_range_order:
  "rangeOrder (countWords [runes ''a'', runes ''b'']) [runes ''a'', runes ''b'']
   \<and> rangeOrder (countWords [runes ''a'', runes ''b'']) [runes ''b'', runes ''a'']
   \<and> aggregate sampleLib [runes ''a'', runes ''b''] [runes ''a'', runes ''b'']
       = [\<lparr>Word = runes ''a'', Frequency = 1\<rparr>, \<lparr>Word = runes ''b'', Frequency = 1\<rparr>]
   \<and> aggregate sampleLib [runes ''b'', runes ''a''] [runes ''a'', runes ''b'']
       = [\<lparr>Word = runes ''b'', Frequency = 1\<rparr>, \<lparr>Word = runes ''a'', Frequency = 1\<rparr>]
   \<and> aggregate sampleLib [runes ''a'', runes ''b''] [runes ''a'', runes ''b'']
       \<noteq> aggregate sampleLib [runes ''b'', runes ''a''] [runes ''a'', runes ''b'']"
  by (auto simp: rangeOrder_countWords runes_def aggregate_def sampleLib_def insertionSort_def
      toSlice_countWords byFrequency_def)

text \<open>
  C3, amended: the aggregation is determined up to the order of entries of equal
  frequency. Two runs on the same token sequence return the same entries (as
  multisets), and position by position the same frequencies; the program applies no
  secondary ordering, so the entries of one frequency may come in any order.
\<close>

theorem aggregate_determined_up_to_ties:
  assumes "sortSliceOK lib" "rangeOrder (countWords ws) ks" "rangeOrder (countWords ws) ks'"
  shows "mset (aggregate lib ks ws) = mset (aggregate lib ks' ws)
       \<and> map Frequency (aggregate lib ks ws) = map Frequency (aggregate lib ks' ws)"
proof -
  have "mset ks = mset ks'"
    using assms(2,3) by (metis rangeOrder_countWords set_eq_iff_mset_eq_distinct)
  then have "mset (toSlice (countWords ws) ks) = mset (toSlice (countWords ws) ks')"
    unfolding toSlice_def by (metis mset_map)
  then have m: "mset (aggregate lib ks ws) = mset (aggregate lib ks' ws)"
    by (simp add: aggregate_mset [OF assms(1)])
  have "sorted_wrt (\<ge>) (map Frequency (aggregate lib ks ws))"
       "sorted_wrt (\<ge>) (map Frequency (aggregate lib ks' ws))"
    using aggregate_sorted [OF assms(1)] by (simp_all add: sorted_wrt_map)
  moreover have "mset (map Frequency (aggregate lib ks ws)) = mset (map Frequency (aggregate lib ks' ws))"
    using m by simp
  ultimately have "map Frequency (aggregate lib ks ws) = map Frequency (aggregate lib ks' ws)"
    by (rule descending_unique)
  with m show ?thesis by simp
qed


subsection \<open>The scenario of the specification\<close>

lemma words_catText:
  "words sampleLib catText = map runes [''the'', ''cat'', ''sat'', ''on'', ''the'', ''mat'', ''the'', ''cat'', ''ran'']"
  by code_simp

lemma rangeOrder_catKeys: "rangeOrder (countWords (words sampleLib catText)) catKeys"
  unfolding rangeOrder_countWords words_catText by (auto simp: catKeys_def runes_def)

lemma processText_catText:
  "processText sampleLib catKeys catText =
     [\<lparr>Word = runes ''the'', Frequency = 3\<rparr>, \<lparr>Word = runes ''cat'', Frequency = 2\<rparr>,
      \<lparr>Word = runes ''ran'', Frequency = 1\<rparr>, \<lparr>Word = runes ''mat'', Frequency = 1\<rparr>,
      \<lparr>Word = runes ''on'', Frequency = 1\<rparr>, \<lparr>Word = runes ''sat'', Frequency = 1\<rparr>]"
  unfolding processText_def words_catText aggregate_def toSlice_countWords
  by (simp add: catKeys_def runes_def sampleLib_def insertionSort_def byFrequency_def)


subsection \<open>Witness for reproducibility up to ties\<close>

theorem aggregate_determined_up_to_ties_witness:
  "sortSliceOK sampleLib
   \<and> rangeOrder (countWords (map runes [''the'', ''cat'', ''the''])) (map runes [''the'', ''cat''])
   \<and> rangeOrder (countWords (map runes [''the'', ''cat'', ''the''])) (map runes [''cat'', ''the''])
   \<and> mset (aggregate sampleLib (map runes [''the'', ''cat'']) (map runes [''the'', ''cat'', ''the'']))
       = mset (aggregate sampleLib (map runes [''cat'', ''the'']) (map runes [''the'', ''cat'', ''the'']))
   \<and> map Frequency (aggregate sampleLib (map runes [''the'', ''cat'']) (map runes [''the'', ''cat'', ''the'']))
       = map Frequency (aggregate sampleLib (map runes [''cat'', ''the'']) (map runes [''the'', ''cat'', ''the'']))"
proof -
  have a: "rangeOrder (countWords (map runes [''the'', ''cat'', ''the''])) (map runes [''the'', ''cat''])"
    by (auto simp: rangeOrder_countWords runes_def)
  have b: "rangeOrder (countWords (map runes [''the'', ''cat'', ''the''])) (map runes [''cat'', ''the''])"
    by (auto simp: rangeOrder_countWords runes_def)
  from aggregate_determined_up_to_ties [OF sampleLib_sortSliceOK a b] a b sampleLib_sortSliceOK
  show ?thesis by simp
qed


subsection \<open>Counting\<close>

text \<open>
  C4: for every token sequence given to the aggregation, the frequencies of the returned
  entries add up to the length of the sequence, and the words of the returned entries
  are exactly the distinct tokens.
\<close>

theorem aggregate_sum_and_words:
  assumes "sortSliceOK lib" "rangeOrder (countWords ws) ks"
  shows "(\<Sum>e\<leftarrow>aggregate lib ks ws. Frequency e) = length ws
       \<and> Word ` set (aggregate lib ks ws) = set ws"
proof -
  have "set (map Word (aggregate lib ks ws)) = set ks"
    using aggregate_words [OF assms(1)] by (metis set_mset_mset)
  then have "Word ` set (aggregate lib ks ws) = set ws"
    using assms(2) by (simp add: rangeOrder_countWords)
  with aggregate_sum [OF assms] show ?thesis by simp
qed

theorem aggregate_sum_and_words_witness:
  "sortSliceOK sampleLib
   \<and> rangeOrder (countWords (words sampleLib catText)) catKeys
   \<and> (\<Sum>e\<leftarrow>aggregate sampleLib catKeys (words sampleLib catText). Frequency e) = 9
   \<and> Word ` set (aggregate sampleLib catKeys (words sampleLib catText))
       = set (map runes [''the'', ''cat'', ''sat'', ''on'', ''mat'', ''ran''])"
proof -
  have "length (words sampleLib catText) = 9"
    by (simp add: words_catText)
  moreover have "set (words sampleLib catText) = set (map runes [''the'', ''cat'', ''sat'', ''on'', ''mat'', ''ran''])"
    unfolding words_catText by auto
  ultimately show ?thesis
    using aggregate_sum_and_words [OF sampleLib_sortSliceOK rangeOrder_catKeys]
      sampleLib_sortSliceOK rangeOrder_catKeys by simp
qed


subsection \<open>Well-formed results\<close>

text \<open>
  C5: every sequence \<^verbatim>\<open>processText\<close> returns is sorted non-increasing by frequency
  (each entry has at least the frequency of its successor), its words are pairwise
  distinct, and every frequency is positive.
\<close>

theorem processText_well_formed:
  assumes "sortSliceOK lib" "rangeOrder (countWords (words lib t)) ks"
  shows "(\<forall>i. i + 1 < length (processText lib ks t) \<longrightarrow>
            Frequency (processText lib ks t ! i) \<ge> Frequency (processText lib ks t ! (i + 1)))
       \<and> distinct (map Word (processText lib ks t))
       \<and> (\<forall>e\<in>set (processText lib ks t). 0 < Frequency e)"
proof (intro conjI allI impI ballI)
  fix i assume "i + 1 < length (processText lib ks t)"
  with aggregate_sorted [OF assms(1), of ks "words lib t"]
  show "Frequency (processText lib ks t ! i) \<ge> Frequency (processText lib ks t ! (i + 1))"
    by (simp add: processText_def sorted_wrt_iff_nth_less)
next
  have "distinct ks" using assms(2) by (simp add: rangeOrder_countWords)
  with aggregate_words [OF assms(1), of ks "words lib t"]
  show "distinct (map Word (processText lib ks t))"
    unfolding processText_def by (metis mset_eq_imp_distinct_iff)
next
  fix e assume "e \<in> set (processText lib ks t)"
  then show "0 < Frequency e"
    using aggregate_positive [OF assms] by (simp add: processText_def)
qed

theorem processText_well_formed_witness:
  "sortSliceOK sampleLib
   \<and> rangeOrder (countWords (words sampleLib catText)) catKeys
   \<and> map Frequency (processText sampleLib catKeys catText) = [3, 2, 1, 1, 1, 1]
   \<and> Frequency (processText sampleLib catKeys catText ! 0)
       \<ge> Frequency (processText sampleLib catKeys catText ! (0 + 1))
   \<and> distinct (map Word (processText sampleLib catKeys catText))
   \<and> list_all (\<lambda>e. 0 < Frequency e) (processText sampleLib catKeys catText)"
proof -
  note wf = processText_well_formed [OF sampleLib_sortSliceOK rangeOrder_catKeys]
  have "0 + 1 < length (processText sampleLib catKeys catText)"
    by (simp add: processText_catText)
  with wf have "Frequency (processText sampleLib catKeys catText ! 0)
       \<ge> Frequency (processText sampleLib catKeys catText ! (0 + 1))"
    by blast
  moreover from wf have "distinct (map Word (processText sampleLib catKeys catText))"
    by blast
  moreover from wf have "list_all (\<lambda>e. 0 < Frequency e) (processText sampleLib catKeys catText)"
    unfolding list_all_iff by blast
  moreover have "map Frequency (processText sampleLib catKeys catText) = [3, 2, 1, 1, 1, 1]"
    by (simp add: processText_catText)
  ultimately show ?thesis
    using sampleLib_sortSliceOK rangeOrder_catKeys by blast
qed


section \<open>\<^verbatim>\<open>extractPDFText\<close>: the pages\<close>

lemma pageLoop_concat:
  "pageLoop reader i acc =
     acc @ concat (map (\<lambda>j. case GetPlainText reader j of Inl err \<Rightarrow> [] | Inr pageText \<Rightarrow> pageText)
                       [i..NumPage reader])"
proof (induction reader i acc rule: pageLoop.induct)
  case (1 reader i acc)
  show ?case
  proof (cases "i \<le> NumPage reader")
    case True
    then have u: "[i..NumPage reader] = i # [i + 1..NumPage reader]"
      by (simp add: upto_rec1)
    show ?thesis
    proof (cases "GetPlainText reader i")
      case (Inl err)
      with True "1.IH"(1) [OF True Inl] u show ?thesis
        by (subst pageLoop.simps) simp
    next
      case (Inr pageText)
      with True "1.IH"(2) [OF True Inr] u show ?thesis
        by (subst pageLoop.simps) simp
    qed
  next
    case False
    then show ?thesis by (subst pageLoop.simps) simp
  qed
qed

text \<open>
  C9: for every PDF input that can be read and decoded, the extracted text is the
  concatenation of the texts of the pages 1 to \<^verbatim>\<open>NumPage\<close> in this order, where a page
  whose extraction fails contributes the empty text; such a page does not make the
  extraction fail.
\<close>

theorem extractPDFText_pages:
  assumes "ReadAll f = (content, None)" "pdfNewReader lib content = Inr reader"
  shows "extractPDFText lib f =
         Inr (concat (map (\<lambda>i. case GetPlainText reader i of Inl err \<Rightarrow> [] | Inr pageText \<Rightarrow> pageText)
                          [1..NumPage reader]))"
  using assms by (simp add: extractPDFText_def pageLoop_concat)

lemma upto_1_3: "[1..3] = [1, 2, (3::int)]"
  by (simp add: upto_rec1)

theorem extractPDFText_pages_witness:
  "ReadAll \<lparr>readData = runes ''ab'', readErr = None\<rparr> = (runes ''ab'', None)
   \<and> pdfNewReader sampleLib (runes ''ab'')
       = Inr \<lparr>NumPage = 3, GetPlainText = (\<lambda>i. if i = 2 then Inl ''malformed page'' else Inr (runes ''ab''))\<rparr>
   \<and> extractPDFText sampleLib \<lparr>readData = runes ''ab'', readErr = None\<rparr> = Inr (runes ''abab'')"
proof -
  have a: "ReadAll \<lparr>readData = runes ''ab'', readErr = None\<rparr> = (runes ''ab'', None)"
    by (simp add: ReadAll_def)
  have b: "pdfNewReader sampleLib (runes ''ab'')
       = Inr \<lparr>NumPage = 3, GetPlainText = (\<lambda>i. if i = 2 then Inl ''malformed page'' else Inr (runes ''ab''))\<rparr>"
  proof -
    have "runes ''ab'' \<noteq> []" by (simp add: runes_def)
    then show ?thesis by (simp add: sampleLib_def threePages_def)
  qed
  have "runes ''ab'' @ runes ''ab'' = runes ''abab''" by (simp add: runes_def)
  with extractPDFText_pages [OF a b] a b show ?thesis
    by (simp add: upto_1_3)
qed

text \<open>The two failures of \<^verbatim>\<open>extractPDFText\<close>: the stream, and the structure of the file.\<close>

lemma extractPDFText_errors:
  "readErr f = Some e \<Longrightarrow> extractPDFText lib f = Inl (''error reading PDF file: '' @ e)"
  "readErr f = None \<Longrightarrow> pdfNewReader lib (readData f) = Inl e \<Longrightarrow>
     extractPDFText lib f = Inl (''error creating PDF reader: '' @ e)"
  by (simp_all add: extractPDFText_def ReadAll_def)


section \<open>The store\<close>

text \<open>
  C6: for every frequency sequence \<open>f\<close>, storing an analysis made of \<open>f\<close> and then
  looking up the identifier returned yields the analysis with exactly \<open>f\<close> as its
  frequencies, whatever the store held before.
\<close>

theorem get_create:
  "get (fst (create analysisID f st)) (snd (create analysisID f st))
     = Some \<lparr>ID = analysisID, Frequencies = f\<rparr>
   \<and> map_option Frequencies (get (fst (create analysisID f st)) (snd (create analysisID f st)))
     = Some f
   \<and> handleGetAnalysis (fst (create analysisID f st)) (snd (create analysisID f st))
     = JSONAnalysis \<lparr>ID = analysisID, Frequencies = f\<rparr>"
  by (simp add: create_def get_def handleGetAnalysis_def)

text \<open>
  C8: for an identifier that is absent from the store, \<^verbatim>\<open>handleGetAnalysis\<close> answers
  "not found" (status 404); for one that is present it returns the stored analysis; and
  it returns an analysis exactly if the identifier is present.
\<close>

theorem handleGetAnalysis_found_or_not:
  "(ident \<notin> dom st \<longrightarrow> handleGetAnalysis ident st = Error ''Analysis not found'' 404)
   \<and> (\<forall>a. st ident = Some a \<longrightarrow> handleGetAnalysis ident st = JSONAnalysis a)
   \<and> ((\<exists>a. handleGetAnalysis ident st = JSONAnalysis a) \<longleftrightarrow> ident \<in> dom st)"
  by (auto simp: handleGetAnalysis_def get_def split: option.splits)

theorem handleGetAnalysis_found_or_not_witness:
  "''nonexistent-id'' \<notin> dom (snd (create ''id-1'' [] NewStore))
   \<and> handleGetAnalysis ''nonexistent-id'' (snd (create ''id-1'' [] NewStore))
       = Error ''Analysis not found'' 404
   \<and> snd (create ''id-1'' [] NewStore) ''id-1'' = Some \<lparr>ID = ''id-1'', Frequencies = []\<rparr>
   \<and> handleGetAnalysis ''id-1'' (snd (create ''id-1'' [] NewStore))
       = JSONAnalysis \<lparr>ID = ''id-1'', Frequencies = []\<rparr>"
proof -
  have a: "''nonexistent-id'' \<notin> dom (snd (create ''id-1'' [] NewStore))"
    by (simp add: create_def NewStore_def)
  have b: "snd (create ''id-1'' [] NewStore) ''id-1'' = Some \<lparr>ID = ''id-1'', Frequencies = []\<rparr>"
    by (simp add: create_def)
  from handleGetAnalysis_found_or_not [of "''nonexistent-id''" "snd (create ''id-1'' [] NewStore)"]
    handleGetAnalysis_found_or_not [of "''id-1''" "snd (create ''id-1'' [] NewStore)"] a b
  show ?thesis by blast
qed

text \<open>An upload leaves the store alone or adds one analysis under its own identifier.\<close>

lemma handleUpload_store:
  "snd (handleUpload lib ks uuid r st) = st
   \<or> (\<exists>f. snd (handleUpload lib ks uuid r st) = st(uuid \<mapsto> \<lparr>ID = uuid, Frequencies = f\<rparr>))"
  by (auto simp: handleUpload_def create_def split: option.splits prod.splits)

lemma reachable_ID:
  "reachable lib st \<Longrightarrow> st k = Some a \<Longrightarrow> ID a = k"
proof (induction arbitrary: k a rule: reachable.induct)
  case start
  then show ?case by (simp add: NewStore_def)
next
  case (upload st ks uuid r)
  from handleUpload_store [of lib ks uuid r st] show ?case
  proof
    assume "snd (handleUpload lib ks uuid r st) = st"
    with upload show ?thesis by simp
  next
    assume "\<exists>f. snd (handleUpload lib ks uuid r st) = st(uuid \<mapsto> \<lparr>ID = uuid, Frequencies = f\<rparr>)"
    then obtain f where "snd (handleUpload lib ks uuid r st) = st(uuid \<mapsto> \<lparr>ID = uuid, Frequencies = f\<rparr>)" ..
    with upload show ?thesis by (auto split: if_splits)
  qed
qed

text \<open>
  C10: in every store the process can reach, an analysis is stored under the key that
  equals its \<^verbatim>\<open>ID\<close> field; hence an analysis returned by \<^verbatim>\<open>handleGetAnalysis\<close> carries
  the identifier that was asked for. (The stores considered include those that any
  order \<open>ks\<close>, admissible or not, would give.)
\<close>

theorem stored_ID_is_key:
  assumes "reachable lib st"
  shows "(\<forall>k a. st k = Some a \<longrightarrow> ID a = k)
       \<and> (\<forall>k a. handleGetAnalysis k st = JSONAnalysis a \<longrightarrow> ID a = k)"
  using reachable_ID [OF assms]
  by (auto simp: handleGetAnalysis_def get_def split: option.splits)

lemma handleUpload_catText:
  "handleUpload sampleLib catKeys ''id-1'' (uploadOf ''text/plain'' catText None) NewStore
   = (JSONId ''id-1'',
      NewStore(''id-1'' \<mapsto> \<lparr>ID = ''id-1'', Frequencies = processText sampleLib catKeys catText\<rparr>))"
  by (simp add: handleUpload_def uploadOf_def isValidContentType_def readContent_def ReadAll_def
      create_def)

theorem stored_ID_is_key_witness:
  "reachable sampleLib
     (snd (handleUpload sampleLib catKeys ''id-1'' (uploadOf ''text/plain'' catText None) NewStore))
   \<and> handleGetAnalysis ''id-1''
       (snd (handleUpload sampleLib catKeys ''id-1'' (uploadOf ''text/plain'' catText None) NewStore))
     = JSONAnalysis \<lparr>ID = ''id-1'', Frequencies = processText sampleLib catKeys catText\<rparr>
   \<and> ID \<lparr>ID = ''id-1'', Frequencies = processText sampleLib catKeys catText\<rparr> = ''id-1''"
proof -
  let ?st = "snd (handleUpload sampleLib catKeys ''id-1'' (uploadOf ''text/plain'' catText None) NewStore)"
  have r: "reachable sampleLib ?st"
    by (rule reachable.upload [OF reachable.start])
  have g: "handleGetAnalysis ''id-1'' ?st
     = JSONAnalysis \<lparr>ID = ''id-1'', Frequencies = processText sampleLib catKeys catText\<rparr>"
    by (simp add: handleUpload_catText handleGetAnalysis_def get_def)
  from stored_ID_is_key [OF r] r g show ?thesis by blast
qed


section \<open>\<^verbatim>\<open>handleUpload\<close>: media types and read errors\<close>

text \<open>
  C7: for every upload whose declared media type is neither \<^verbatim>\<open>text/plain\<close> nor
  \<^verbatim>\<open>application/pdf\<close>, \<^verbatim>\<open>handleUpload\<close> answers with the invalid-file-type error
  (status 400) whatever the file holds, and the store is unchanged.
\<close>

theorem handleUpload_rejects_media_type:
  assumes "\<not> parseFails r" "formFile r = Some u"
    and "contentType u \<noteq> ''text/plain''" "contentType u \<noteq> ''application/pdf''"
  shows "handleUpload lib ks uuid r st =
         (Error ''Invalid file type. Only text/plain and application/pdf are supported'' 400, st)"
  using assms by (simp add: handleUpload_def isValidContentType_def)

theorem handleUpload_rejects_media_type_witness:
  "\<not> parseFails (uploadOf ''application/json'' (runes ''{}'') None)
   \<and> formFile (uploadOf ''application/json'' (runes ''{}'') None)
       = Some \<lparr>file = \<lparr>readData = runes ''{}'', readErr = None\<rparr>, contentType = ''application/json''\<rparr>
   \<and> ''application/json'' \<noteq> ''text/plain'' \<and> ''application/json'' \<noteq> ''application/pdf''
   \<and> handleUpload sampleLib [] ''id-1'' (uploadOf ''application/json'' (runes ''{}'') None) NewStore
       = (Error ''Invalid file type. Only text/plain and application/pdf are supported'' 400, NewStore)"
  using handleUpload_rejects_media_type [of "uploadOf ''application/json'' (runes ''{}'') None"
      "\<lparr>file = \<lparr>readData = runes ''{}'', readErr = None\<rparr>, contentType = ''application/json''\<rparr>"
      sampleLib "[]" "''id-1''" NewStore]
  by (simp add: uploadOf_def)

text \<open>
  On the PDF path an error of \<^verbatim>\<open>extractPDFText\<close>, be it from reading or from decoding,
  ends the request with status 500 and nothing is stored.
\<close>

lemma handleUpload_pdf_error:
  assumes "\<not> parseFails r" "formFile r = Some u" "contentType u = ''application/pdf''"
    and "extractPDFText lib (file u) = Inl err"
  shows "handleUpload lib ks uuid r st = (Error ''Error reading file content'' 500, st)"
  using assms by (simp add: handleUpload_def isValidContentType_def readContent_def)

text \<open>
  On the \<^verbatim>\<open>text/plain\<close> path the error of \<^verbatim>\<open>io.ReadAll\<close> is held by the \<^verbatim>\<open>err\<close> of
  the inner block only. The test of line 93 sees the outer \<^verbatim>\<open>err\<close>, which is \<^verbatim>\<open>nil\<close>:
  the request goes on with the empty text and stores an analysis.
\<close>

lemma handleUpload_text_read_error:
  assumes "\<not> parseFails r" "formFile r = Some u" "contentType u = ''text/plain''"
    and "readErr (file u) = Some err"
  shows "handleUpload lib ks uuid r st =
         (JSONId uuid, st(uuid \<mapsto> \<lparr>ID = uuid, Frequencies = processText lib ks []\<rparr>))"
  using assms by (simp add: handleUpload_def isValidContentType_def readContent_def ReadAll_def create_def)

text \<open>
  C2: an ingest call whose byte stream cannot be fully read must fail with a read error
  and store nothing. \<^verbatim>\<open>handleUpload\<close> does not do so for \<^verbatim>\<open>text/plain\<close>: the upload
  below, whose stream breaks with \<^verbatim>\<open>unexpected EOF\<close>, is answered with an identifier,
  and an analysis with no frequencies is stored under it.
\<close>

theorem handleUpload_text_read_error_is_stored:
  "handleUpload sampleLib [] ''id-1''
     (uploadOf ''text/plain'' (runes ''the cat'') (Some ''unexpected EOF'')) NewStore
   = (JSONId ''id-1'', NewStore(''id-1'' \<mapsto> \<lparr>ID = ''id-1'', Frequencies = []\<rparr>))"
  by (simp add: handleUpload_def uploadOf_def isValidContentType_def readContent_def ReadAll_def
      create_def processText_def words_def ToLower_def aggregate_def toSlice_def sampleLib_def
      insertionSort_def)

end
